theory Spec2Isabelle
  imports Main
begin

section \<open>Strings and the Python primitives the parsers use\<close>

text \<open>
  A Python \<open>str\<close> is modelled as a \<open>string\<close>: a list of 8-bit characters, read as the
  code points U+0000 to U+00FF. The character classes below are Python's classes
  restricted to that range. Python integers are unbounded, so they are \<open>int\<close>. An
  exception that leaves a function is the left summand of its result.
\<close>

definition code :: "char \<Rightarrow> nat" where
  "code c = of_char c"

definition is_decimal :: "char \<Rightarrow> bool" where
  \<comment> \<open>the regex class \<open>\d\<close>, and the characters \<open>int()\<close> reads as digits: 0 to 9\<close>
  "is_decimal c = (48 \<le> code c \<and> code c \<le> 57)"

definition is_digit_char :: "char \<Rightarrow> bool" where
  \<comment> \<open>\<open>str.isdigit\<close> on one character: the decimal digits and the superscript digits
      U+00B2, U+00B3 and U+00B9\<close>
  "is_digit_char c = (is_decimal c \<or> code c = 178 \<or> code c = 179 \<or> code c = 185)"

definition isdigit :: "string \<Rightarrow> bool" where
  \<comment> \<open>\<open>str.isdigit()\<close>: at least one character, and every character a digit\<close>
  "isdigit s = (s \<noteq> [] \<and> list_all is_digit_char s)"

definition is_space :: "char \<Rightarrow> bool" where
  \<comment> \<open>the characters \<open>str.split()\<close> treats as whitespace\<close>
  "is_space c = ((9 \<le> code c \<and> code c \<le> 13) \<or> (28 \<le> code c \<and> code c \<le> 32)
                 \<or> code c = 133 \<or> code c = 160)"

definition lower_char :: "char \<Rightarrow> char" where
  \<comment> \<open>\<open>str.lower()\<close> on one character: A to Z, and U+00C0 to U+00DE except U+00D7\<close>
  "lower_char c =
     (if (65 \<le> code c \<and> code c \<le> 90) \<or> (192 \<le> code c \<and> code c \<le> 222 \<and> code c \<noteq> 215)
      then char_of (code c + 32) else c)"

definition lower :: "string \<Rightarrow> string" where
  "lower s = map lower_char s"

definition digit_val :: "char \<Rightarrow> int" where
  "digit_val c = int (code c) - 48"

definition int_of_digits :: "string \<Rightarrow> int" where
  \<comment> \<open>the value of a string of decimal digits, leading zeros allowed\<close>
  "int_of_digits ds = foldl (\<lambda>a c. 10 * a + digit_val c) 0 ds"

datatype error =
    ValueError | TypeError | KeyError
  | URLError | HTTPError int | TimeoutError
  | UnicodeDecodeError | JSONDecodeError
  | KeyboardInterrupt

definition is_Exception :: "error \<Rightarrow> bool" where
  \<comment> \<open>the classes that derive from \<open>Exception\<close>, which \<open>except Exception\<close> catches;
      \<open>KeyboardInterrupt\<close> derives from \<open>BaseException\<close> only\<close>
  "is_Exception e = (e \<noteq> KeyboardInterrupt)"

definition int_max_str_digits :: nat where
  \<comment> \<open>the interpreter's default limit on the number of digits \<open>int()\<close> converts\<close>
  "int_max_str_digits = 4300"

definition py_int :: "string \<Rightarrow> error + int" where
  \<comment> \<open>\<open>int(s)\<close> for the strings the parsers pass to it, which consist of digit
      characters only: a superscript digit is not a decimal literal, and a literal of
      more digits than the limit, leading zeros counted, is refused\<close>
  "py_int s =
     (if s \<noteq> [] \<and> list_all is_decimal s \<and> length s \<le> int_max_str_digits
      then Inr (int_of_digits s) else Inl ValueError)"

definition bind :: "error + 'a \<Rightarrow> ('a \<Rightarrow> error + 'b) \<Rightarrow> error + 'b" where
  \<comment> \<open>sequencing: an exception ends the block\<close>
  "bind x f = (case x of Inl e \<Rightarrow> Inl e | Inr v \<Rightarrow> f v)"

fun is_prefix :: "string \<Rightarrow> string \<Rightarrow> bool" where
  "is_prefix [] s = True"
| "is_prefix (p # ps) [] = False"
| "is_prefix (p # ps) (c # cs) = (p = c \<and> is_prefix ps cs)"

fun contains :: "string \<Rightarrow> string \<Rightarrow> bool" where
  \<comment> \<open>\<open>name in s\<close> on strings: \<open>name\<close> occurs in \<open>s\<close> as a substring\<close>
  "contains name [] = (name = [])"
| "contains name (c # cs) = (is_prefix name (c # cs) \<or> contains name cs)"

fun runs :: "(char \<Rightarrow> bool) \<Rightarrow> string \<Rightarrow> string \<Rightarrow> string list" where
  \<comment> \<open>the maximal non-empty runs of characters satisfying \<open>P\<close>, left to right;
      \<open>cur\<close> is the run being read\<close>
  "runs P cur [] = (if cur = [] then [] else [cur])"
| "runs P cur (c # cs) =
     (if P c then runs P (cur @ [c]) cs
      else if cur = [] then runs P [] cs else cur # runs P [] cs)"

definition findall_digits :: "string \<Rightarrow> string list" where
  \<comment> \<open>\<open>re.findall(r'\d+', s)\<close>\<close>
  "findall_digits s = runs is_decimal [] s"

definition split :: "string \<Rightarrow> string list" where
  \<comment> \<open>\<open>s.split()\<close>: the maximal runs of non-whitespace characters\<close>
  "split s = runs (\<lambda>c. \<not> is_space c) [] s"

definition strip_punct :: "string \<Rightarrow> string" where
  \<comment> \<open>\<open>re.sub(r'[,.]', '', s)\<close>\<close>
  "strip_punct s = filter (\<lambda>c. c \<noteq> CHR '','' \<and> c \<noteq> CHR ''.'') s"

fun span_digits :: "nat \<Rightarrow> string \<Rightarrow> string \<times> string" where
  \<comment> \<open>the greedy match of at most \<open>n\<close> leading \<open>\d\<close>, and the rest of the string\<close>
  "span_digits 0 s = ([], s)"
| "span_digits (Suc n) [] = ([], [])"
| "span_digits (Suc n) (c # cs) =
     (if is_decimal c then (case span_digits n cs of (ds, r) \<Rightarrow> (c # ds, r))
      else ([], c # cs))"

section \<open>The date records\<close>

text \<open>
  Both parsers return a dictionary with the keys \<open>year\<close>, \<open>month\<close> and \<open>day\<close>, or
  \<open>None\<close>. The month is a number in a Gregorian date and a name in a Hebrew date.
\<close>

record 'm Date =
  year :: int
  month :: 'm
  day :: int

type_synonym GregorianDate = "int Date"
type_synonym HebrewDate = "string Date"

section \<open>The Gregorian date parser\<close>

definition iso_match :: "string \<Rightarrow> (string \<times> string \<times> string) option" where
  \<comment> \<open>\<open>re.match(r'(\d{4})-(\d{1,2})-(\d{1,2})', s)\<close>, giving the three groups. A greedy
      \<open>\d{1,2}\<close> that took two digits and is not followed by the separator has no
      shorter alternative that is: the character after one digit is the second digit.\<close>
  "iso_match s =
     (case span_digits 4 s of (y, r1) \<Rightarrow>
        if length y \<noteq> 4 then None else
        (case r1 of [] \<Rightarrow> None | c1 # r2 \<Rightarrow>
           if c1 \<noteq> CHR ''-'' then None else
           (case span_digits 2 r2 of (m, r3) \<Rightarrow>
              if m = [] then None else
              (case r3 of [] \<Rightarrow> None | c2 # r4 \<Rightarrow>
                 if c2 \<noteq> CHR ''-'' then None else
                 (case span_digits 2 r4 of (d, r5) \<Rightarrow>
                    if d = [] then None else Some (y, m, d))))))"

definition slash_match :: "string \<Rightarrow> (string \<times> string \<times> string) option" where
  \<comment> \<open>\<open>re.match(r'(\d{1,2})/(\d{1,2})/(\d{4})', s)\<close>, giving the three groups\<close>
  "slash_match s =
     (case span_digits 2 s of (a, r1) \<Rightarrow>
        if a = [] then None else
        (case r1 of [] \<Rightarrow> None | c1 # r2 \<Rightarrow>
           if c1 \<noteq> CHR ''/'' then None else
           (case span_digits 2 r2 of (b, r3) \<Rightarrow>
              if b = [] then None else
              (case r3 of [] \<Rightarrow> None | c2 # r4 \<Rightarrow>
                 if c2 \<noteq> CHR ''/'' then None else
                 (case span_digits 4 r4 of (y, r5) \<Rightarrow>
                    if length y \<noteq> 4 then None else Some (a, b, y))))))"

definition months :: "(string \<times> int) list" where
  \<comment> \<open>the items of the dictionary \<open>months\<close> in iteration order; the literal names
      \<open>'may'\<close> twice, which keeps the position of the first\<close>
  "months =
     [(''january'', 1), (''february'', 2), (''march'', 3), (''april'', 4),
      (''may'', 5), (''june'', 6), (''july'', 7), (''august'', 8),
      (''september'', 9), (''october'', 10), (''november'', 11), (''december'', 12),
      (''jan'', 1), (''feb'', 2), (''mar'', 3), (''apr'', 4), (''jun'', 6),
      (''jul'', 7), (''aug'', 8), (''sep'', 9), (''oct'', 10), (''nov'', 11), (''dec'', 12)]"

fun month_loop :: "(string \<times> int) list \<Rightarrow> string \<Rightarrow> error + GregorianDate option" where
  \<comment> \<open>the loop \<open>for month_name, month_num in months.items()\<close>; the two calls of
      \<open>int()\<close> run left to right and are not guarded\<close>
  "month_loop [] date_str = Inr None"
| "month_loop ((month_name, month_num) # rest) date_str =
     (if contains month_name (lower date_str) then
        (let numbers = findall_digits date_str in
         if length numbers \<ge> 2 then
           bind (py_int (hd numbers)) (\<lambda>d.
           bind (py_int (last numbers)) (\<lambda>y.
             Inr (Some \<lparr>year = (if y < 100 then y + 2000 else y), month = month_num,
                         day = d\<rparr>)))
         else month_loop rest date_str)
      else month_loop rest date_str)"

definition parseGregorianDate :: "string \<Rightarrow> error + GregorianDate option" where
  \<comment> \<open>\<open>Inl\<close> is an exception leaving the function\<close>
  "parseGregorianDate date_str =
     (case iso_match date_str of
        Some (y, m, d) \<Rightarrow>
          bind (py_int y) (\<lambda>year.
          bind (py_int m) (\<lambda>month.
          bind (py_int d) (\<lambda>day.
            Inr (Some \<lparr>year = year, month = month, day = day\<rparr>))))
      | None \<Rightarrow>
          (case slash_match date_str of
             Some (a, b, y) \<Rightarrow>
               bind (py_int a) (\<lambda>m1.
               bind (py_int b) (\<lambda>m2.
               bind (py_int y) (\<lambda>year.
                 if m1 > 12 then Inr (Some \<lparr>year = year, month = m2, day = m1\<rparr>)
                 else Inr (Some \<lparr>year = year, month = m1, day = m2\<rparr>))))
           | None \<Rightarrow> month_loop months date_str))"

section \<open>The Hebrew date parser\<close>

definition HEBREW_MONTHS :: "(string \<times> string) list" where
  "HEBREW_MONTHS =
     [(''tishrei'', ''Tishrei''), (''cheshvan'', ''Cheshvan''), (''kislev'', ''Kislev''),
      (''tevet'', ''Tevet''), (''shvat'', ''Shvat''), (''adar'', ''Adar''), (''adar1'', ''Adar1''),
      (''adar2'', ''Adar2''), (''nisan'', ''Nisan''), (''iyyar'', ''Iyyar''), (''sivan'', ''Sivan''),
      (''tamuz'', ''Tamuz''), (''av'', ''Av''), (''elul'', ''Elul'')]"

type_synonym slots = "int option \<times> string option \<times> int option"

fun scan_parts :: "string list \<Rightarrow> slots \<Rightarrow> error + slots" where
  \<comment> \<open>the loop \<open>for part in parts\<close> over the variables \<open>year\<close>, \<open>month\<close>, \<open>day\<close>\<close>
  "scan_parts [] st = Inr st"
| "scan_parts (part # rest) (y, m, d) =
     (if isdigit part then
        (case py_int part of
           Inl e \<Rightarrow> Inl e
         | Inr num \<Rightarrow>
             if num > 5000 then scan_parts rest (Some num, m, d)
             else if 1 \<le> num \<and> num \<le> 30 then scan_parts rest (y, m, Some num)
             else scan_parts rest (y, m, d))
      else
        (case map_of HEBREW_MONTHS part of
           Some name \<Rightarrow> scan_parts rest (y, Some name, d)
         | None \<Rightarrow> scan_parts rest (y, m, d)))"

definition hebrew_parts :: "string \<Rightarrow> string list" where
  \<comment> \<open>\<open>parts\<close>: the tokens of the cleaned, lowercased input\<close>
  "hebrew_parts date_str = split (lower (strip_punct date_str))"

definition parseHebrewDate :: "string \<Rightarrow> error + HebrewDate option" where
  \<comment> \<open>\<open>Inl\<close> is an exception leaving the function; the final test is Python's truth of
      the three variables: not \<open>None\<close>, not zero, not the empty string\<close>
  "parseHebrewDate date_str =
     (let parts = hebrew_parts date_str in
      if length parts < 3 then Inr None
      else
        (case scan_parts parts (None, None, None) of
           Inl e \<Rightarrow> Inl e
         | Inr (Some y, Some m, Some d) \<Rightarrow>
             if y \<noteq> 0 \<and> m \<noteq> [] \<and> d \<noteq> 0
             then Inr (Some \<lparr>year = y, month = m, day = d\<rparr>) else Inr None
         | Inr _ \<Rightarrow> Inr None))"

section \<open>The conversion gateway\<close>

text \<open>
  The two converters call the remote service and read its JSON answer. The service and
  the decoding of its answer are parameters: \<open>service\<close> stands for
  \<open>urlopen(url, timeout=5)\<close> and \<open>response.read()\<close>, given the query parameters
  before they are URL-encoded, and either raises or returns the body; \<open>loads\<close> stands
  for \<open>json.loads(body.decode())\<close>, and either raises or returns the decoded value.
\<close>

datatype param = PInt int | PStr string

datatype json =
    JNull | JBool bool | JInt int
  | JFloat string  \<comment> \<open>a float, kept as its literal; its value is never inspected\<close>
  | JStr string | JList "json list" | JDict "(string \<times> json) list"

type_synonym service = "(string \<times> param) list \<Rightarrow> error + string"
type_synonym decoder = "string \<Rightarrow> error + json"

record ConvertedDate =
  conv_year :: json
  conv_month :: json
  conv_day :: json
  formatted :: string

definition py_in :: "string \<Rightarrow> json \<Rightarrow> error + bool" where
  \<comment> \<open>\<open>key in data\<close>: a key of a dict, an element of a list, a substring of a string;
      the other values are not iterable\<close>
  "py_in key data =
     (case data of
        JDict kvs \<Rightarrow> Inr (map_of kvs key \<noteq> None)
      | JList xs \<Rightarrow> Inr (List.member xs (JStr key))
      | JStr t \<Rightarrow> Inr (contains key t)
      | _ \<Rightarrow> Inl TypeError)"

definition py_getitem :: "json \<Rightarrow> string \<Rightarrow> error + json" where
  \<comment> \<open>\<open>data[key]\<close> with a string key\<close>
  "py_getitem data key =
     (case data of
        JDict kvs \<Rightarrow> (case map_of kvs key of Some v \<Rightarrow> Inr v | None \<Rightarrow> Inl KeyError)
      | _ \<Rightarrow> Inl TypeError)"

fun str_nat :: "nat \<Rightarrow> string" where
  "str_nat n = (if n < 10 then [char_of (48 + n)]
                else str_nat (n div 10) @ [char_of (48 + n mod 10)])"

declare str_nat.simps [simp del]

definition str_int :: "int \<Rightarrow> string" where
  "str_int i = (if i < 0 then CHR ''-'' # str_nat (nat (- i)) else str_nat (nat i))"

definition py_str :: "(json \<Rightarrow> string) \<Rightarrow> json \<Rightarrow> string" where
  \<comment> \<open>\<open>str(x)\<close>, as an f-string field without a format gives it; \<open>other\<close> is the text
      of a float, a list or a dict, which is not modelled\<close>
  "py_str other x =
     (case x of
        JInt i \<Rightarrow> str_int i
      | JStr t \<Rightarrow> t
      | JBool b \<Rightarrow> (if b then ''True'' else ''False'')
      | JNull \<Rightarrow> ''None''
      | _ \<Rightarrow> other x)"

definition format_02d :: "json \<Rightarrow> error + string" where
  \<comment> \<open>\<open>format(x, '02d')\<close>: an integer (a bool is one) zero-padded to two characters,
      the sign counted; any other value raises\<close>
  "format_02d x =
     (let pad = (\<lambda>i. if 0 \<le> i \<and> i < 10 then CHR ''0'' # str_int i else str_int i) in
      case x of
        JInt i \<Rightarrow> Inr (pad i)
      | JBool b \<Rightarrow> Inr (pad (if b then 1 else 0))
      | JFloat f \<Rightarrow> Inl ValueError
      | JStr t \<Rightarrow> Inl ValueError
      | _ \<Rightarrow> Inl TypeError)"

definition has_all :: "string \<Rightarrow> string \<Rightarrow> string \<Rightarrow> json \<Rightarrow> error + bool" where
  \<comment> \<open>\<open>k1 in data and k2 in data and k3 in data\<close>, left to right, stopping at the
      first that is false\<close>
  "has_all k1 k2 k3 data =
     bind (py_in k1 data) (\<lambda>b1. if \<not> b1 then Inr False else
     bind (py_in k2 data) (\<lambda>b2. if \<not> b2 then Inr False else
     py_in k3 data))"

definition try_except :: "error + 'a option \<Rightarrow> error + 'a option" where
  \<comment> \<open>\<open>try: ... except Exception: pass\<close> followed by \<open>return None\<close>\<close>
  "try_except body =
     (case body of
        Inl e \<Rightarrow> if is_Exception e then Inr None else Inl e
      | Inr r \<Rightarrow> Inr r)"

definition fetch :: "service \<Rightarrow> decoder \<Rightarrow> (string \<times> param) list \<Rightarrow> error + json" where
  \<comment> \<open>the \<open>with\<close> block: open the URL, read the body, decode it into \<open>data\<close>\<close>
  "fetch service loads params = bind (service params) (\<lambda>body. loads body)"

definition h2g_params :: "HebrewDate \<Rightarrow> (string \<times> param) list" where
  "h2g_params hebrew_date =
     [(''cfg'', PStr ''json''), (''hy'', PInt (year hebrew_date)),
      (''hm'', PStr (month hebrew_date)), (''hd'', PInt (day hebrew_date)),
      (''h2g'', PStr ''1''), (''strict'', PStr ''1'')]"

definition g2h_params :: "GregorianDate \<Rightarrow> (string \<times> param) list" where
  "g2h_params gregorian_date =
     [(''cfg'', PStr ''json''), (''gy'', PInt (year gregorian_date)),
      (''gm'', PInt (month gregorian_date)), (''gd'', PInt (day gregorian_date)),
      (''g2h'', PStr ''1''), (''strict'', PStr ''1'')]"

definition h2g_body ::
  "(json \<Rightarrow> string) \<Rightarrow> service \<Rightarrow> decoder \<Rightarrow> HebrewDate \<Rightarrow> error + ConvertedDate option" where
  \<comment> \<open>the body of the \<open>try\<close> block of \<open>convertHebrewToGregorian\<close>; \<open>Inr None\<close> is
      leaving the block without a \<open>return\<close>\<close>
  "h2g_body other service loads hebrew_date =
     bind (fetch service loads (h2g_params hebrew_date)) (\<lambda>data.
     bind (has_all ''gy'' ''gm'' ''gd'' data) (\<lambda>ok.
       if \<not> ok then Inr None else
       bind (py_getitem data ''gy'') (\<lambda>gy.
       bind (py_getitem data ''gm'') (\<lambda>gm.
       bind (py_getitem data ''gd'') (\<lambda>gd.
       bind (format_02d gm) (\<lambda>mm.
       bind (format_02d gd) (\<lambda>dd.
         Inr (Some \<lparr>conv_year = gy, conv_month = gm, conv_day = gd,
                     formatted = py_str other gy @ ''-'' @ mm @ ''-'' @ dd\<rparr>))))))))"

definition convertHebrewToGregorian ::
  "(json \<Rightarrow> string) \<Rightarrow> service \<Rightarrow> decoder \<Rightarrow> HebrewDate \<Rightarrow> error + ConvertedDate option" where
  "convertHebrewToGregorian other service loads hebrew_date =
     try_except (h2g_body other service loads hebrew_date)"

definition g2h_body ::
  "(json \<Rightarrow> string) \<Rightarrow> service \<Rightarrow> decoder \<Rightarrow> GregorianDate \<Rightarrow> error + ConvertedDate option" where
  \<comment> \<open>the body of the \<open>try\<close> block of \<open>convertGregorianToHebrew\<close>\<close>
  "g2h_body other service loads gregorian_date =
     bind (fetch service loads (g2h_params gregorian_date)) (\<lambda>data.
     bind (has_all ''hy'' ''hm'' ''hd'' data) (\<lambda>ok.
       if \<not> ok then Inr None else
       bind (py_getitem data ''hy'') (\<lambda>hy.
       bind (py_getitem data ''hm'') (\<lambda>hm.
       bind (py_getitem data ''hd'') (\<lambda>hd.
         Inr (Some \<lparr>conv_year = hy, conv_month = hm, conv_day = hd,
                     formatted = py_str other hd @ '' '' @ py_str other hm @ '' ''
                                 @ py_str other hy\<rparr>))))))"

definition convertGregorianToHebrew ::
  "(json \<Rightarrow> string) \<Rightarrow> service \<Rightarrow> decoder \<Rightarrow> GregorianDate \<Rightarrow> error + ConvertedDate option" where
  "convertGregorianToHebrew other service loads gregorian_date =
     try_except (g2h_body other service loads gregorian_date)"

section \<open>Predicates used to state the properties\<close>

definition digits :: "nat \<Rightarrow> nat \<Rightarrow> string \<Rightarrow> bool" where
  \<comment> \<open>a string of between \<open>lo\<close> and \<open>hi\<close> decimal digits\<close>
  "digits lo hi ds = (list_all is_decimal ds \<and> lo \<le> length ds \<and> length ds \<le> hi)"

definition starts_with_digit :: "string \<Rightarrow> bool" where
  "starts_with_digit s = (case s of [] \<Rightarrow> False | c # _ \<Rightarrow> is_decimal c)"

definition calendar_range :: "GregorianDate \<Rightarrow> bool" where
  \<comment> \<open>the ranges the data model gives for a Gregorian date: month 1 to 12, day 1 to 31\<close>
  "calendar_range r = (1 \<le> month r \<and> month r \<le> 12 \<and> 1 \<le> day r \<and> day r \<le> 31)"

definition numeric :: "string \<Rightarrow> bool" where
  \<comment> \<open>a token that is a decimal number\<close>
  "numeric p = (p \<noteq> [] \<and> list_all is_decimal p)"

definition is_year_token :: "string \<Rightarrow> bool" where
  "is_year_token p = (numeric p \<and> 5000 < int_of_digits p)"

definition is_day_token :: "string \<Rightarrow> bool" where
  "is_day_token p = (numeric p \<and> 1 \<le> int_of_digits p \<and> int_of_digits p \<le> 30)"

definition is_month_token :: "string \<Rightarrow> bool" where
  "is_month_token p = (map_of HEBREW_MONTHS p \<noteq> None)"

definition canonical :: "string \<Rightarrow> string" where
  \<comment> \<open>the display name of a month key\<close>
  "canonical p = (case map_of HEBREW_MONTHS p of Some name \<Rightarrow> name | None \<Rightarrow> [])"

definition accepted :: "string \<Rightarrow> bool" where
  \<comment> \<open>a decimal number that \<open>int()\<close> converts: within the limit on its digits\<close>
  "accepted p = (numeric p \<and> length p \<le> int_max_str_digits)"

definition raising_token :: "string \<Rightarrow> bool" where
  \<comment> \<open>a token that passes \<open>isdigit()\<close> and that \<open>int()\<close> rejects\<close>
  "raising_token p = (isdigit p \<and> \<not> accepted p)"

definition orderings :: "'a \<Rightarrow> 'a \<Rightarrow> 'a \<Rightarrow> 'a list list" where
  \<comment> \<open>the six orders of three tokens\<close>
  "orderings a b c = [[a, b, c], [a, c, b], [b, a, c], [b, c, a], [c, a, b], [c, b, a]]"

definition slot :: "'a option \<Rightarrow> (string \<Rightarrow> 'a) \<Rightarrow> (string \<Rightarrow> bool) \<Rightarrow> string list \<Rightarrow> 'a option" where
  \<comment> \<open>a variable of the loop after the tokens \<open>parts\<close>, from its value \<open>init\<close> before: set
      by the last token that satisfies \<open>q\<close>, when there is one\<close>
  "slot init f q parts =
     (if filter q parts = [] then init else Some (f (last (filter q parts))))"

definition present :: "string \<Rightarrow> json \<Rightarrow> bool" where
  \<comment> \<open>the decoded answer is an object with the field \<open>key\<close>\<close>
  "present key data = (case data of JDict kvs \<Rightarrow> map_of kvs key \<noteq> None | _ \<Rightarrow> False)"

section \<open>Facts about the primitives\<close>

lemma span_digits_split:
  "span_digits n s = (ds, r) \<Longrightarrow> s = ds @ r \<and> length ds \<le> n \<and> list_all is_decimal ds"
proof (induction n s arbitrary: ds r rule: span_digits.induct)
  case (3 n c cs)
  then show ?case by (auto split: if_splits prod.splits)
qed auto

lemma span_digits_greedy:
  "span_digits n s = (ds, r) \<Longrightarrow> length ds = n \<or> \<not> starts_with_digit r"
proof (induction n s arbitrary: ds r rule: span_digits.induct)
  case (3 n c cs)
  then show ?case by (auto simp: starts_with_digit_def split: if_splits prod.splits)
qed (auto simp: starts_with_digit_def)

lemma span_digits_exact:
  "list_all is_decimal ds \<Longrightarrow> length ds \<le> n \<Longrightarrow> length ds = n \<or> \<not> starts_with_digit r
     \<Longrightarrow> span_digits n (ds @ r) = (ds, r)"
proof (induction n "ds @ r" arbitrary: ds r rule: span_digits.induct)
  case (1 s)
  then show ?case by simp
next
  case (2 n)
  then show ?case by simp
next
  case (3 n c cs)
  show ?case
  proof (cases ds)
    case Nil
    with 3 show ?thesis by (auto simp: starts_with_digit_def split: list.splits)
  next
    case (Cons d ds')
    with 3 show ?thesis by auto
  qed
qed

lemma int_of_digits_snoc: "int_of_digits (ds @ [c]) = 10 * int_of_digits ds + digit_val c"
  by (simp add: int_of_digits_def)

lemma digit_val_range: "is_decimal c \<Longrightarrow> 0 \<le> digit_val c \<and> digit_val c \<le> 9"
  by (auto simp: is_decimal_def digit_val_def)

lemma int_of_digits_range:
  "list_all is_decimal ds \<Longrightarrow> 0 \<le> int_of_digits ds \<and> int_of_digits ds < 10 ^ length ds"
proof (induction ds rule: rev_induct)
  case Nil
  then show ?case by (simp add: int_of_digits_def)
next
  case (snoc c ds)
  then have a: "0 \<le> int_of_digits ds" and b: "int_of_digits ds < 10 ^ length ds"
    and c: "0 \<le> digit_val c" and d: "digit_val c \<le> 9"
    using digit_val_range by auto
  from b have "int_of_digits ds + 1 \<le> 10 ^ length ds" by simp
  then have "10 * int_of_digits ds + 10 \<le> 10 * 10 ^ length ds" by simp
  with a c d show ?case by (simp add: int_of_digits_snoc)
qed

lemma digits_value: "digits lo 2 ds \<Longrightarrow> 0 \<le> int_of_digits ds \<and> int_of_digits ds \<le> 99"
proof -
  assume a: "digits lo 2 ds"
  then have "int_of_digits ds < 10 ^ length ds" and nn: "0 \<le> int_of_digits ds"
    using int_of_digits_range by (auto simp: digits_def)
  moreover have "(10::int) ^ length ds \<le> 10 ^ 2"
    using a by (intro power_increasing) (auto simp: digits_def)
  ultimately show ?thesis by simp
qed

lemma runs_all:
  "list_all P cur \<Longrightarrow> r \<in> set (runs P cur s) \<Longrightarrow> r \<noteq> [] \<and> list_all P r"
proof (induction P cur s rule: runs.induct)
  case (1 P cur)
  then show ?case by (auto split: if_splits)
next
  case (2 P cur c cs)
  show ?case
  proof (cases "P c")
    case True
    with 2 show ?thesis by simp
  next
    case False
    with 2 show ?thesis by (cases "cur = []") auto
  qed
qed

section \<open>The two regular expressions match exactly their forms\<close>

lemma not_decimal_sep [simp]:
  "\<not> is_decimal CHR ''-''" "\<not> is_decimal CHR ''/''"
  by (simp_all add: is_decimal_def code_def)

lemma starts_sep [simp]:
  "\<not> starts_with_digit (CHR ''-'' # s)" "\<not> starts_with_digit (CHR ''/'' # s)"
  by (simp_all add: starts_with_digit_def)

lemma iso_match_form:
  assumes "digits 4 4 y" "digits 1 2 m" "digits 1 2 d"
    and "length d = 2 \<or> \<not> starts_with_digit rest"
  shows "iso_match (y @ CHR ''-'' # m @ CHR ''-'' # d @ rest) = Some (y, m, d)"
proof -
  have 1: "span_digits 4 (y @ CHR ''-'' # m @ CHR ''-'' # d @ rest)
             = (y, CHR ''-'' # m @ CHR ''-'' # d @ rest)"
    using assms(1) by (intro span_digits_exact) (auto simp: digits_def)
  have 2: "span_digits 2 (m @ CHR ''-'' # d @ rest) = (m, CHR ''-'' # d @ rest)"
    using assms(2) by (intro span_digits_exact) (auto simp: digits_def)
  have 3: "span_digits 2 (d @ rest) = (d, rest)"
    using assms(3,4) by (intro span_digits_exact) (auto simp: digits_def)
  have "length y = 4" "m \<noteq> []" "d \<noteq> []" using assms by (auto simp: digits_def)
  then show ?thesis by (simp add: iso_match_def 1 2 3)
qed

lemma iso_match_some:
  assumes "iso_match s = Some (y, m, d)"
  shows "digits 4 4 y \<and> digits 1 2 m \<and> digits 1 2 d
         \<and> (\<exists>rest. s = y @ CHR ''-'' # m @ CHR ''-'' # d @ rest
                    \<and> (length d = 2 \<or> \<not> starts_with_digit rest))"
proof -
  obtain y' r1 where s1: "span_digits 4 s = (y', r1)" by fastforce
  from assms s1 obtain r2 where r1: "r1 = CHR ''-'' # r2" and ly: "length y' = 4"
    by (auto simp: iso_match_def split: list.splits if_splits)
  obtain m' r3 where s2: "span_digits 2 r2 = (m', r3)" by fastforce
  from assms s1 r1 ly s2 obtain r4 where r3: "r3 = CHR ''-'' # r4" and m': "m' \<noteq> []"
    by (auto simp: iso_match_def split: list.splits if_splits)
  obtain d' r5 where s3: "span_digits 2 r4 = (d', r5)" by fastforce
  from assms s1 r1 ly s2 r3 m' s3 have eq: "y' = y" "m' = m" "d' = d" and d': "d \<noteq> []"
    by (auto simp: iso_match_def split: list.splits if_splits)
  from span_digits_split[OF s1] span_digits_split[OF s2] span_digits_split[OF s3]
    span_digits_greedy[OF s3]
  show ?thesis using r1 r3 m' d' eq ly by (auto simp: digits_def Suc_le_eq)
qed

lemma slash_match_form:
  assumes "digits 1 2 a" "digits 1 2 b" "digits 4 4 y"
  shows "slash_match (a @ CHR ''/'' # b @ CHR ''/'' # y @ rest) = Some (a, b, y)"
proof -
  have 1: "span_digits 2 (a @ CHR ''/'' # b @ CHR ''/'' # y @ rest)
             = (a, CHR ''/'' # b @ CHR ''/'' # y @ rest)"
    using assms(1) by (intro span_digits_exact) (auto simp: digits_def)
  have 2: "span_digits 2 (b @ CHR ''/'' # y @ rest) = (b, CHR ''/'' # y @ rest)"
    using assms(2) by (intro span_digits_exact) (auto simp: digits_def)
  have 3: "span_digits 4 (y @ rest) = (y, rest)"
    using assms(3) by (intro span_digits_exact) (auto simp: digits_def)
  have "length y = 4" "a \<noteq> []" "b \<noteq> []" using assms by (auto simp: digits_def)
  then show ?thesis by (simp add: slash_match_def 1 2 3)
qed

lemma slash_match_some:
  assumes "slash_match s = Some (a, b, y)"
  shows "digits 1 2 a \<and> digits 1 2 b \<and> digits 4 4 y
         \<and> (\<exists>rest. s = a @ CHR ''/'' # b @ CHR ''/'' # y @ rest)"
proof -
  obtain a' r1 where s1: "span_digits 2 s = (a', r1)" by fastforce
  from assms s1 obtain r2 where r1: "r1 = CHR ''/'' # r2" and a': "a' \<noteq> []"
    by (auto simp: slash_match_def split: list.splits if_splits)
  obtain b' r3 where s2: "span_digits 2 r2 = (b', r3)" by fastforce
  from assms s1 r1 a' s2 obtain r4 where r3: "r3 = CHR ''/'' # r4" and b': "b' \<noteq> []"
    by (auto simp: slash_match_def split: list.splits if_splits)
  obtain y' r5 where s3: "span_digits 4 r4 = (y', r5)" by fastforce
  from assms s1 r1 a' s2 r3 b' s3 have eq: "a' = a" "b' = b" "y' = y" and ly: "length y = 4"
    by (auto simp: slash_match_def split: list.splits if_splits)
  from span_digits_split[OF s1] span_digits_split[OF s2] span_digits_split[OF s3]
  show ?thesis using r1 r3 a' b' eq ly by (auto simp: digits_def Suc_le_eq)
qed

lemma iso_match_slash_form:
  assumes "digits 1 2 a"
  shows "iso_match (a @ CHR ''/'' # s) = None"
proof -
  have "span_digits 4 (a @ CHR ''/'' # s) = (a, CHR ''/'' # s)"
    using assms by (intro span_digits_exact) (auto simp: digits_def)
  moreover have "length a \<noteq> 4" using assms by (auto simp: digits_def)
  ultimately show ?thesis by (simp add: iso_match_def)
qed

lemma bind_Inl_iff:
  "bind x f = Inl e \<longleftrightarrow> x = Inl e \<or> (\<exists>v. x = Inr v \<and> f v = Inl e)"
  by (cases x) (auto simp: bind_def)

lemma bind_Inr [simp]: "bind (Inr v) f = f v"
  by (simp add: bind_def)

lemma bind_Inl [simp]: "bind (Inl e) f = Inl e"
  by (simp add: bind_def)

lemma py_int_accepted: "accepted p \<Longrightarrow> py_int p = Inr (int_of_digits p)"
  by (simp add: py_int_def accepted_def numeric_def)

lemma py_int_raises: "\<not> accepted p \<Longrightarrow> py_int p = Inl ValueError"
  by (auto simp: py_int_def accepted_def numeric_def)

lemma py_int_Inr: "py_int p = Inr n \<Longrightarrow> accepted p \<and> n = int_of_digits p"
  by (auto simp: py_int_def accepted_def numeric_def split: if_splits)

lemma digits_accepted: "digits lo hi ds \<Longrightarrow> 1 \<le> lo \<Longrightarrow> hi \<le> 4 \<Longrightarrow> accepted ds"
  by (auto simp: digits_def accepted_def numeric_def int_max_str_digits_def)

lemma run_numeric:
  assumes "r \<in> set (findall_digits s)"
  shows "numeric r"
  using runs_all[of is_decimal "[]" r s] assms by (simp add: findall_digits_def numeric_def)

section \<open>The month loop\<close>

lemma months_range: "k \<in> snd ` set months \<Longrightarrow> 1 \<le> k \<and> k \<le> 12"
  by (auto simp: months_def)

lemma month_loop_few: "length (findall_digits s) < 2 \<Longrightarrow> month_loop ms s = Inr None"
  by (induction ms s rule: month_loop.induct) auto

lemma month_loop_some:
  "month_loop ms s = Inr (Some r) \<Longrightarrow>
     2 \<le> length (findall_digits s) \<and> month r \<in> snd ` set ms
     \<and> day r = int_of_digits (hd (findall_digits s))
     \<and> year r = (let y = int_of_digits (last (findall_digits s)) in if y < 100 then y + 2000 else y)"
proof (induction ms s rule: month_loop.induct)
  case (1 date_str)
  then show ?case by simp
next
  case (2 month_name month_num rest date_str)
  show ?case
  proof (cases "contains month_name (lower date_str) \<and> 2 \<le> length (findall_digits date_str)")
    case True
    with 2(3) obtain d y where d: "py_int (hd (findall_digits date_str)) = Inr d"
      and y: "py_int (last (findall_digits date_str)) = Inr y"
      and r: "r = \<lparr>year = (if y < 100 then y + 2000 else y), month = month_num, day = d\<rparr>"
      by (cases "py_int (hd (findall_digits date_str))";
          cases "py_int (last (findall_digits date_str))") (auto simp: Let_def)
    from py_int_Inr[OF d] py_int_Inr[OF y] r True show ?thesis by (simp add: Let_def)
  next
    case False
    with 2 show ?thesis by (auto simp: Let_def split: if_splits)
  qed
qed

lemma month_loop_found:
  assumes "2 \<le> length (findall_digits s)"
    and "length (hd (findall_digits s)) \<le> int_max_str_digits"
    and "length (last (findall_digits s)) \<le> int_max_str_digits"
  shows "(name, k) \<in> set ms \<Longrightarrow> contains name (lower s) \<Longrightarrow>
           \<exists>r. month_loop ms s = Inr (Some r)"
proof -
  from assms(1) have ne: "findall_digits s \<noteq> []" by auto
  have "numeric (hd (findall_digits s))" "numeric (last (findall_digits s))"
    using hd_in_set[OF ne] last_in_set[OF ne] run_numeric by blast+
  with assms(2,3) have a: "py_int (hd (findall_digits s)) = Inr (int_of_digits (hd (findall_digits s)))"
    "py_int (last (findall_digits s)) = Inr (int_of_digits (last (findall_digits s)))"
    by (auto intro!: py_int_accepted simp: accepted_def)
  show "(name, k) \<in> set ms \<Longrightarrow> contains name (lower s) \<Longrightarrow>
           \<exists>r. month_loop ms s = Inr (Some r)"
    using assms(1) a by (induction ms s rule: month_loop.induct) (auto simp: Let_def)
qed

lemma month_loop_raises:
  assumes "2 \<le> length (findall_digits s)"
    and "int_max_str_digits < length (hd (findall_digits s))
         \<or> int_max_str_digits < length (last (findall_digits s))"
  shows "(name, k) \<in> set ms \<Longrightarrow> contains name (lower s) \<Longrightarrow>
           month_loop ms s = Inl ValueError"
proof -
  have "bind (py_int (hd (findall_digits s))) (\<lambda>d.
          bind (py_int (last (findall_digits s))) (\<lambda>y. Inr (f d y))) = Inl ValueError" for f
    using assms(2)
    by (cases "py_int (hd (findall_digits s))")
       (auto simp: py_int_def split: if_splits)
  then show "(name, k) \<in> set ms \<Longrightarrow> contains name (lower s) \<Longrightarrow>
           month_loop ms s = Inl ValueError"
    using assms(1) by (induction ms s rule: month_loop.induct) (auto simp: Let_def)
qed

lemma first_run_nonneg:
  assumes "2 \<le> length (findall_digits s)"
  shows "0 \<le> int_of_digits (hd (findall_digits s))"
proof -
  from assms have "findall_digits s \<noteq> []" by auto
  then have "numeric (hd (findall_digits s))" using hd_in_set run_numeric by blast
  then show ?thesis using int_of_digits_range by (auto simp: numeric_def)
qed

section \<open>Properties of the Gregorian date parser\<close>

lemma parse_iso:
  assumes "iso_match s = Some (y, m, d)"
  shows "parseGregorianDate s =
           Inr (Some \<lparr>year = int_of_digits y, month = int_of_digits m, day = int_of_digits d\<rparr>)"
proof -
  from iso_match_some[OF assms] have "accepted y" "accepted m" "accepted d"
    by (auto intro: digits_accepted)
  then show ?thesis using assms by (simp add: parseGregorianDate_def py_int_accepted)
qed

lemma parse_slash:
  assumes "iso_match s = None" and "slash_match s = Some (a, b, y)"
  shows "parseGregorianDate s =
           Inr (Some (if int_of_digits a > 12
                 then \<lparr>year = int_of_digits y, month = int_of_digits b, day = int_of_digits a\<rparr>
                 else \<lparr>year = int_of_digits y, month = int_of_digits a, day = int_of_digits b\<rparr>))"
proof -
  from slash_match_some[OF assms(2)] have "accepted a" "accepted b" "accepted y"
    by (auto intro: digits_accepted)
  then show ?thesis using assms by (simp add: parseGregorianDate_def py_int_accepted)
qed

text \<open>
  Claim C1, as the code has it. The parser checks no range: a record from the ISO or
  the slash form carries the month and the day as written, each a number of one or two
  digits, so between 0 and 99; a record from the natural-language form has its month
  between 1 and 12 and, as its day, the first number of the input, which is not
  negative and has no upper bound. In every case the month is between 0 and 99 and the
  day is not negative.
\<close>

theorem gregorian_fields_range:
  assumes "parseGregorianDate s = Inr (Some r)"
  shows "0 \<le> month r \<and> month r \<le> 99 \<and> 0 \<le> day r
         \<and> (if iso_match s = None \<and> slash_match s = None
            then 1 \<le> month r \<and> month r \<le> 12 else day r \<le> 99)"
proof (cases "iso_match s")
  case (Some t)
  obtain y m d where t: "t = (y, m, d)" by (cases t)
  from iso_match_some[of s y m d] Some t have "digits 1 2 m" "digits 1 2 d" by auto
  then have "0 \<le> int_of_digits m \<and> int_of_digits m \<le> 99"
    "0 \<le> int_of_digits d \<and> int_of_digits d \<le> 99" by (auto dest: digits_value)
  moreover from assms Some t parse_iso[of s y m d]
  have "r = \<lparr>year = int_of_digits y, month = int_of_digits m, day = int_of_digits d\<rparr>"
    by simp
  ultimately show ?thesis using Some by simp
next
  case None
  note iso = None
  show ?thesis
  proof (cases "slash_match s")
    case (Some t)
    obtain a b y where t: "t = (a, b, y)" by (cases t)
    from slash_match_some[of s a b y] Some t have "digits 1 2 a" "digits 1 2 b" by auto
    then have "0 \<le> int_of_digits a \<and> int_of_digits a \<le> 99"
      "0 \<le> int_of_digits b \<and> int_of_digits b \<le> 99" by (auto dest: digits_value)
    moreover from assms iso Some t parse_slash[of s a b y]
    have "r = (if int_of_digits a > 12
               then \<lparr>year = int_of_digits y, month = int_of_digits b, day = int_of_digits a\<rparr>
               else \<lparr>year = int_of_digits y, month = int_of_digits a, day = int_of_digits b\<rparr>)"
      by simp
    ultimately show ?thesis using Some by (simp split: if_splits)
  next
    case None
    with assms iso have ml: "month_loop months s = Inr (Some r)"
      by (simp add: parseGregorianDate_def)
    from month_loop_some[OF ml] have n: "2 \<le> length (findall_digits s)"
      and m: "month r \<in> snd ` set months"
      and d: "day r = int_of_digits (hd (findall_digits s))" by auto
    from months_range[OF m] have "1 \<le> month r" "month r \<le> 12" by auto
    moreover from first_run_nonneg[OF n] d have "0 \<le> day r" by simp
    ultimately show ?thesis using iso None by simp
  qed
qed

theorem gregorian_fields_range_witness:
  "parseGregorianDate ''2023-00-99'' = Inr (Some \<lparr>year = 2023, month = 0, day = 99\<rparr>)
   \<and> 0 \<le> month \<lparr>year = 2023, month = 0::int, day = 99\<rparr>
   \<and> month \<lparr>year = 2023, month = 0::int, day = 99\<rparr> \<le> 99
   \<and> 0 \<le> day \<lparr>year = 2023, month = 0::int, day = 99\<rparr>
   \<and> day \<lparr>year = 2023, month = 0::int, day = 99\<rparr> \<le> 99"
proof -
  have p: "parseGregorianDate ''2023-00-99'' = Inr (Some \<lparr>year = 2023, month = 0, day = 99\<rparr>)"
    by code_simp
  have i: "iso_match ''2023-00-99'' \<noteq> None" by code_simp
  show ?thesis using gregorian_fields_range[OF p] p i by auto
qed

text \<open>
  Claim C1, as stated, fails: the ISO input 2023-13-45 is parsed to month 13 and
  day 45, outside 1 to 12 and 1 to 31.
\<close>

theorem gregorian_out_of_calendar_range:
  "parseGregorianDate ''2023-13-45'' = Inr (Some \<lparr>year = 2023, month = 13, day = 45\<rparr>)
   \<and> \<not> calendar_range \<lparr>year = 2023, month = 13, day = 45\<rparr>"
proof -
  have "parseGregorianDate ''2023-13-45'' = Inr (Some \<lparr>year = 2023, month = 13, day = 45\<rparr>)"
    by code_simp
  then show ?thesis by (simp add: calendar_range_def)
qed

text \<open>
  Claim C2. An input that begins with one or two digits, a slash, one or two digits, a
  slash and four digits is parsed from the slash form: when the first number exceeds 12
  it is the day and the second the month, otherwise the first is the month and the
  second the day. Whatever follows the year plays no role.
\<close>

theorem slash_form_disambiguation:
  assumes "digits 1 2 a" and "digits 1 2 b" and "digits 4 4 y"
  shows "parseGregorianDate (a @ ''/'' @ b @ ''/'' @ y @ rest) =
           Inr (Some (if int_of_digits a > 12
                 then \<lparr>year = int_of_digits y, month = int_of_digits b, day = int_of_digits a\<rparr>
                 else \<lparr>year = int_of_digits y, month = int_of_digits a, day = int_of_digits b\<rparr>))"
proof -
  have "iso_match (a @ ''/'' @ b @ ''/'' @ y @ rest) = None"
    using iso_match_slash_form[OF assms(1)] by simp
  moreover have "slash_match (a @ ''/'' @ b @ ''/'' @ y @ rest) = Some (a, b, y)"
    using slash_match_form[OF assms] by simp
  ultimately show ?thesis by (rule parse_slash)
qed

theorem slash_form_disambiguation_witness:
  "parseGregorianDate ''25/12/2023'' = Inr (Some \<lparr>year = 2023, month = 12, day = 25\<rparr>)
   \<and> parseGregorianDate ''5/6/2023'' = Inr (Some \<lparr>year = 2023, month = 5, day = 6\<rparr>)"
proof -
  have d: "digits 1 2 ''25''" "digits 1 2 ''12''" "digits 4 4 ''2023''"
    "digits 1 2 ''5''" "digits 1 2 ''6''" by code_simp+
  have v: "int_of_digits ''25'' = 25" "int_of_digits ''12'' = 12" "int_of_digits ''2023'' = 2023"
    "int_of_digits ''5'' = 5" "int_of_digits ''6'' = 6" by code_simp+
  show ?thesis
    using slash_form_disambiguation[OF d(1,2,3), of "[]"]
      slash_form_disambiguation[OF d(4,5,3), of "[]"] v by simp
qed

text \<open>
  Claim C3. An input that begins with four digits, a dash, one or two digits, a dash
  and one or two digits is parsed from the ISO form, whatever follows: the year and
  the month are the numbers written, and the day is the number written when it has two
  digits or is not followed by a further digit. The day group is greedy: a single digit
  followed by another digit is read together with it, as a day of two digits.
\<close>

theorem iso_form_direct:
  assumes "digits 4 4 y" and "digits 1 2 m" and "digits 1 2 d"
  shows "(length d = 2 \<or> \<not> starts_with_digit rest \<longrightarrow>
            parseGregorianDate (y @ ''-'' @ m @ ''-'' @ d @ rest) =
              Inr (Some \<lparr>year = int_of_digits y, month = int_of_digits m,
                          day = int_of_digits d\<rparr>))
         \<and> (\<exists>d' rest'. d @ rest = d' @ rest' \<and> digits (length d) 2 d'
               \<and> parseGregorianDate (y @ ''-'' @ m @ ''-'' @ d @ rest) =
                   Inr (Some \<lparr>year = int_of_digits y, month = int_of_digits m,
                               day = int_of_digits d'\<rparr>))"
proof -
  have exact: "parseGregorianDate (y @ ''-'' @ m @ ''-'' @ d' @ rest') =
      Inr (Some \<lparr>year = int_of_digits y, month = int_of_digits m, day = int_of_digits d'\<rparr>)"
    if "digits 1 2 d'" "length d' = 2 \<or> \<not> starts_with_digit rest'" for d' rest'
    using iso_match_form[OF assms(1,2) that] by (simp add: parse_iso)
  show ?thesis
  proof (cases "length d = 2 \<or> \<not> starts_with_digit rest")
    case True
    note e = exact[OF assms(3) True]
    moreover have "digits (length d) 2 d" using assms(3) by (simp add: digits_def)
    ultimately have "d @ rest = d @ rest \<and> digits (length d) 2 d
        \<and> parseGregorianDate (y @ ''-'' @ m @ ''-'' @ d @ rest) =
            Inr (Some \<lparr>year = int_of_digits y, month = int_of_digits m,
                        day = int_of_digits d\<rparr>)"
      by simp
    then show ?thesis using e by blast
  next
    case False
    then obtain c rest' where rest: "rest = c # rest'" and c: "is_decimal c"
      by (auto simp: starts_with_digit_def split: list.splits)
    from False assms(3) have l: "length d = 1" by (auto simp: digits_def)
    with assms(3) c have d': "digits 1 2 (d @ [c])" "length (d @ [c]) = 2"
      by (auto simp: digits_def)
    from exact[of "d @ [c]" rest'] d' have
      "parseGregorianDate (y @ ''-'' @ m @ ''-'' @ d @ rest) =
         Inr (Some \<lparr>year = int_of_digits y, month = int_of_digits m,
                     day = int_of_digits (d @ [c])\<rparr>)"
      by (simp add: rest)
    moreover have "d @ rest = (d @ [c]) @ rest'" by (simp add: rest)
    moreover have "digits (length d) 2 (d @ [c])" using d' l by (simp add: digits_def)
    ultimately show ?thesis using False by blast
  qed
qed

theorem iso_form_direct_witness:
  "parseGregorianDate ''2023-12-08'' = Inr (Some \<lparr>year = 2023, month = 12, day = 8\<rparr>)"
proof -
  have d: "digits 4 4 ''2023''" "digits 1 2 ''12''" "digits 1 2 ''08''" by code_simp+
  have v: "int_of_digits ''2023'' = 2023" "int_of_digits ''12'' = 12" "int_of_digits ''08'' = 8"
    by code_simp+
  show ?thesis using iso_form_direct[OF d, of "[]"] v by simp
qed

text \<open>
  Claim C4, as the code has it. For an input that matches neither the ISO nor the
  slash form, contains an English month name (whatever the case of its letters) and
  has at least two runs of digits, the first and the last of them within the limit of
  \<open>int()\<close> on the number of digits, the parser returns a record whose day is the first
  run and whose year is the last run, plus 2000 when that number is below 100.
\<close>

theorem natural_language_day_year:
  assumes "iso_match s = None" and "slash_match s = None"
    and "(name, k) \<in> set months" and "contains name (lower s)"
    and "2 \<le> length (findall_digits s)"
    and "length (hd (findall_digits s)) \<le> int_max_str_digits"
    and "length (last (findall_digits s)) \<le> int_max_str_digits"
  shows "\<exists>r. parseGregorianDate s = Inr (Some r)
           \<and> day r = int_of_digits (hd (findall_digits s))
           \<and> year r = (let y = int_of_digits (last (findall_digits s))
                        in if y < 100 then y + 2000 else y)"
proof -
  from month_loop_found[OF assms(5,6,7,3,4)] obtain r
    where r: "month_loop months s = Inr (Some r)" by blast
  then have "parseGregorianDate s = Inr (Some r)"
    using assms(1,2) by (simp add: parseGregorianDate_def)
  with month_loop_some[OF r] show ?thesis by simp
qed

theorem natural_language_day_year_witness:
  "parseGregorianDate ''December 8, 23'' = Inr (Some \<lparr>year = 2023, month = 12, day = 8\<rparr>)"
proof -
  let ?s = "''December 8, 23''"
  have h: "iso_match ?s = None" "slash_match ?s = None"
    "(''december'', 12) \<in> set months" "contains ''december'' (lower ?s)"
    "2 \<le> length (findall_digits ?s)"
    "length (hd (findall_digits ?s)) \<le> int_max_str_digits"
    "length (last (findall_digits ?s)) \<le> int_max_str_digits" by code_simp+
  have v: "int_of_digits (hd (findall_digits ?s)) = 8"
    "int_of_digits (last (findall_digits ?s)) = 23" by code_simp+
  from natural_language_day_year[OF h] obtain r
    where r: "parseGregorianDate ?s = Inr (Some r)" "day r = 8" "year r = 2023"
    using v by auto
  have "parseGregorianDate ?s = Inr (Some \<lparr>year = 2023, month = 12, day = 8\<rparr>)" by code_simp
  with r show ?thesis by simp
qed

text \<open>
  Claim C4, as stated, fails on an input with a single run of digits: in
  \<open>March 2024\<close> the first run and the last run are both 2024, and the parser returns
  no record.
\<close>

theorem natural_language_single_number:
  "iso_match ''March 2024'' = None \<and> slash_match ''March 2024'' = None
   \<and> contains ''march'' (lower ''March 2024'')
   \<and> findall_digits ''March 2024'' = [''2024'']
   \<and> parseGregorianDate ''March 2024'' = Inr None"
  by code_simp

text \<open>
  Claim C10. In the natural-language branch, reached when neither the ISO nor the slash
  form matches, an input with fewer than two runs of digits gives no record, whether
  or not it contains a month name.
\<close>

theorem natural_language_needs_two_numbers:
  assumes "iso_match s = None" and "slash_match s = None"
    and "length (findall_digits s) < 2"
  shows "parseGregorianDate s = Inr None"
  using assms month_loop_few[OF assms(3)] by (simp add: parseGregorianDate_def)

theorem natural_language_needs_two_numbers_witness:
  "contains ''december'' (lower ''December 8'') \<and> parseGregorianDate ''December 8'' = Inr None"
proof -
  have h: "iso_match ''December 8'' = None" "slash_match ''December 8'' = None"
    "length (findall_digits ''December 8'') < 2" by code_simp+
  have c: "contains ''december'' (lower ''December 8'')" by code_simp
  show ?thesis using natural_language_needs_two_numbers[OF h] c by simp
qed

section \<open>The token scan of the Hebrew parser\<close>

lemma slot_Nil [simp]: "slot init f q [] = init"
  by (simp add: slot_def)

lemma slot_Cons: "slot init f q (p # ps) = slot (if q p then Some (f p) else init) f q ps"
  by (simp add: slot_def)

lemma numeric_isdigit: "numeric p \<Longrightarrow> isdigit p"
  by (auto simp: numeric_def isdigit_def is_digit_char_def list_all_iff)

lemma month_key_not_isdigit: "is_month_token p \<Longrightarrow> \<not> isdigit p"
  by (auto simp: is_month_token_def HEBREW_MONTHS_def isdigit_def is_digit_char_def
      is_decimal_def code_def split: if_splits)

lemma month_token_canonical:
  "map_of HEBREW_MONTHS p = Some name \<Longrightarrow> is_month_token p \<and> canonical p = name \<and> name \<noteq> []"
  by (auto simp: is_month_token_def canonical_def HEBREW_MONTHS_def split: if_splits)

lemma canonical_name:
  "is_month_token p \<Longrightarrow> canonical p \<noteq> [] \<and> canonical p \<in> snd ` set HEBREW_MONTHS"
proof -
  assume "is_month_token p"
  then obtain name where n: "map_of HEBREW_MONTHS p = Some name"
    by (auto simp: is_month_token_def)
  from map_of_SomeD[OF n] have "name \<in> snd ` set HEBREW_MONTHS" by force
  with month_token_canonical[OF n] show ?thesis by simp
qed

lemma scan_parts_raises:
  "list_ex raising_token parts \<Longrightarrow> scan_parts parts st = Inl ValueError"
proof (induction parts st rule: scan_parts.induct)
  case (1 st)
  then show ?case by simp
next
  case (2 part rest y m d)
  show ?case
  proof (cases "raising_token part")
    case True
    then show ?thesis by (simp add: raising_token_def py_int_raises)
  next
    case False
    with 2 show ?thesis
      by (auto simp: raising_token_def py_int_accepted split: option.splits)
  qed
qed

lemma scan_parts_slots:
  "\<not> list_ex raising_token parts \<Longrightarrow>
     scan_parts parts (y, m, d) =
       Inr (slot y int_of_digits is_year_token parts,
            slot m canonical is_month_token parts,
            slot d int_of_digits is_day_token parts)"
proof (induction parts arbitrary: y m d)
  case Nil
  then show ?case by simp
next
  case (Cons part rest)
  then have nr: "\<not> raising_token part" and rest: "\<not> list_ex raising_token rest" by auto
  note IH = Cons.IH[OF rest]
  show ?case
  proof (cases "isdigit part")
    case True
    with nr have acc: "accepted part" by (simp add: raising_token_def)
    then have num: "numeric part" by (simp add: accepted_def)
    have nm: "\<not> is_month_token part" using True month_key_not_isdigit by blast
    show ?thesis using True num nm
      by (simp add: IH py_int_accepted[OF acc] slot_Cons is_year_token_def is_day_token_def)
  next
    case False
    then have nn: "\<not> numeric part" using numeric_isdigit by blast
    show ?thesis
    proof (cases "map_of HEBREW_MONTHS part")
      case None
      then show ?thesis using False nn
        by (simp add: IH slot_Cons is_year_token_def is_day_token_def is_month_token_def)
    next
      case (Some name)
      then show ?thesis using False nn month_token_canonical[OF Some]
        by (simp add: IH slot_Cons is_year_token_def is_day_token_def)
    qed
  qed
qed

lemma last_filter: "filter q ps \<noteq> [] \<Longrightarrow> q (last (filter q ps))"
  using last_in_set[of "filter q ps"] by auto

lemma parseHebrewDate_cases:
  "parseHebrewDate s =
     (let parts = hebrew_parts s in
      if length parts < 3 then Inr None
      else if list_ex raising_token parts then Inl ValueError
      else if filter is_year_token parts \<noteq> [] \<and> filter is_month_token parts \<noteq> []
              \<and> filter is_day_token parts \<noteq> []
      then Inr (Some \<lparr>year = int_of_digits (last (filter is_year_token parts)),
                       month = canonical (last (filter is_month_token parts)),
                       day = int_of_digits (last (filter is_day_token parts))\<rparr>)
      else Inr None)"
proof -
  define parts where "parts = hebrew_parts s"
  consider (short) "length parts < 3"
    | (raise) "\<not> length parts < 3" "list_ex raising_token parts"
    | (scan) "\<not> length parts < 3" "\<not> list_ex raising_token parts"
    by blast
  then have "parseHebrewDate s =
      (if length parts < 3 then Inr None
      else if list_ex raising_token parts then Inl ValueError
      else if filter is_year_token parts \<noteq> [] \<and> filter is_month_token parts \<noteq> []
              \<and> filter is_day_token parts \<noteq> []
      then Inr (Some \<lparr>year = int_of_digits (last (filter is_year_token parts)),
                       month = canonical (last (filter is_month_token parts)),
                       day = int_of_digits (last (filter is_day_token parts))\<rparr>)
      else Inr None)"
  proof cases
    case short
    then show ?thesis by (simp add: parseHebrewDate_def parts_def)
  next
    case raise
    then show ?thesis
      by (simp add: parseHebrewDate_def parts_def[symmetric] scan_parts_raises)
  next
    case scan
    have y: "filter is_year_token parts \<noteq> [] \<Longrightarrow>
               int_of_digits (last (filter is_year_token parts)) \<noteq> 0"
      using last_filter[of is_year_token parts] by (auto simp: is_year_token_def)
    have d: "filter is_day_token parts \<noteq> [] \<Longrightarrow>
               int_of_digits (last (filter is_day_token parts)) \<noteq> 0"
      using last_filter[of is_day_token parts] by (auto simp: is_day_token_def)
    have m: "filter is_month_token parts \<noteq> [] \<Longrightarrow>
               canonical (last (filter is_month_token parts)) \<noteq> []"
      using last_filter[of is_month_token parts] canonical_name by blast
    show ?thesis using scan y d m
      by (simp add: parseHebrewDate_def parts_def[symmetric] scan_parts_slots slot_def)
  qed
  then show ?thesis by (simp add: parts_def Let_def)
qed

section \<open>Properties of the Hebrew date parser\<close>

lemma hebrew_record_fields:
  assumes "parseHebrewDate s = Inr (Some r)"
  shows "5000 < year r \<and> month r \<in> snd ` set HEBREW_MONTHS \<and> 1 \<le> day r \<and> day r \<le> 30"
proof -
  let ?parts = "hebrew_parts s"
  from assms have ne: "filter is_year_token ?parts \<noteq> []" "filter is_month_token ?parts \<noteq> []"
    "filter is_day_token ?parts \<noteq> []"
    and r: "r = \<lparr>year = int_of_digits (last (filter is_year_token ?parts)),
                  month = canonical (last (filter is_month_token ?parts)),
                  day = int_of_digits (last (filter is_day_token ?parts))\<rparr>"
    by (auto simp: parseHebrewDate_cases Let_def split: if_splits)
  from last_filter[OF ne(1)] have "5000 < year r" by (simp add: r is_year_token_def)
  moreover from last_filter[OF ne(2)] have "month r \<in> snd ` set HEBREW_MONTHS"
    using canonical_name by (simp add: r)
  moreover from last_filter[OF ne(3)] have "1 \<le> day r \<and> day r \<le> 30"
    by (simp add: r is_day_token_def)
  ultimately show ?thesis by simp
qed

lemma hebrew_missing_slot:
  assumes "\<not> list_ex raising_token (hebrew_parts s)"
    and "filter is_year_token (hebrew_parts s) = [] \<or> filter is_month_token (hebrew_parts s) = []
         \<or> filter is_day_token (hebrew_parts s) = []"
  shows "parseHebrewDate s = Inr None"
  using assms by (auto simp: parseHebrewDate_cases Let_def)

lemma hebrew_last_token_guarded:
  "(parseHebrewDate s = Inr (Some r) \<longrightarrow>
      filter is_year_token (hebrew_parts s) \<noteq> []
      \<and> year r = int_of_digits (last (filter is_year_token (hebrew_parts s)))
      \<and> filter is_month_token (hebrew_parts s) \<noteq> []
      \<and> month r = canonical (last (filter is_month_token (hebrew_parts s)))
      \<and> filter is_day_token (hebrew_parts s) \<noteq> []
      \<and> day r = int_of_digits (last (filter is_day_token (hebrew_parts s))))
   \<and> (3 \<le> length (hebrew_parts s) \<and> \<not> list_ex raising_token (hebrew_parts s)
        \<and> filter is_year_token (hebrew_parts s) \<noteq> []
        \<and> filter is_month_token (hebrew_parts s) \<noteq> []
        \<and> filter is_day_token (hebrew_parts s) \<noteq> [] \<longrightarrow>
      parseHebrewDate s =
        Inr (Some \<lparr>year = int_of_digits (last (filter is_year_token (hebrew_parts s))),
                    month = canonical (last (filter is_month_token (hebrew_parts s))),
                    day = int_of_digits (last (filter is_day_token (hebrew_parts s)))\<rparr>))"
  by (auto simp: parseHebrewDate_cases Let_def split: if_splits)

lemma token_kinds:
  assumes "is_year_token y" and "is_month_token m" and "is_day_token d"
  shows "\<not> is_year_token m" "\<not> is_year_token d" "\<not> is_month_token y" "\<not> is_month_token d"
    "\<not> is_day_token y" "\<not> is_day_token m"
  using assms month_key_not_isdigit numeric_isdigit
  by (auto simp: is_year_token_def is_day_token_def)

text \<open>
  Claim C5. The parser does not depend on the order of the tokens of a well-formed
  input: whenever the tokens of the input are, in any of the six orders, a year token,
  a month key and a day token, the numbers within the limit of \<open>int()\<close>, the result is
  the record of that year, the display name of that month and that day. The three
  inputs of the claim are instances.
\<close>

theorem hebrew_token_order:
  assumes "is_year_token y" and "length y \<le> int_max_str_digits"
    and "is_month_token m"
    and "is_day_token d" and "length d \<le> int_max_str_digits"
    and "hebrew_parts s \<in> set (orderings y m d)"
  shows "parseHebrewDate s =
           Inr (Some \<lparr>year = int_of_digits y, month = canonical m, day = int_of_digits d\<rparr>)"
proof -
  note k = token_kinds[OF assms(1,3,4)]
  have "\<not> raising_token y" "\<not> raising_token d"
    using assms(1,2,4,5) by (auto simp: raising_token_def accepted_def is_year_token_def
        is_day_token_def)
  moreover have "\<not> raising_token m"
    using assms(3) month_key_not_isdigit by (auto simp: raising_token_def)
  ultimately show ?thesis
    using assms(1,3,4,6) k by (auto simp: orderings_def parseHebrewDate_cases)
qed

theorem hebrew_token_order_witness:
  "parseHebrewDate ''5784 Kislev 25'' = Inr (Some \<lparr>year = 5784, month = ''Kislev'', day = 25\<rparr>)
   \<and> parseHebrewDate ''25 Kislev 5784'' = Inr (Some \<lparr>year = 5784, month = ''Kislev'', day = 25\<rparr>)
   \<and> parseHebrewDate ''Kislev 25, 5784'' = Inr (Some \<lparr>year = 5784, month = ''Kislev'', day = 25\<rparr>)"
proof -
  have t: "is_year_token ''5784''" "length ''5784'' \<le> int_max_str_digits"
    "is_month_token ''kislev''" "is_day_token ''25''" "length ''25'' \<le> int_max_str_digits"
    by code_simp+
  have p: "hebrew_parts ''5784 Kislev 25'' \<in> set (orderings ''5784'' ''kislev'' ''25'')"
    "hebrew_parts ''25 Kislev 5784'' \<in> set (orderings ''5784'' ''kislev'' ''25'')"
    "hebrew_parts ''Kislev 25, 5784'' \<in> set (orderings ''5784'' ''kislev'' ''25'')"
    by code_simp+
  have v: "int_of_digits ''5784'' = 5784" "canonical ''kislev'' = ''Kislev''"
    "int_of_digits ''25'' = 25" by code_simp+
  show ?thesis
    using hebrew_token_order[OF t p(1)] hebrew_token_order[OF t p(2)]
      hebrew_token_order[OF t p(3)] v by simp
qed

text \<open>
  Claim C6. On the input below two tokens qualify for every slot, so the claim has the
  parser return the record of the last of each: year 5785, month Av, day 3. The last
  token, a superscript two, passes \<open>isdigit()\<close> and is rejected by \<open>int()\<close>, and the
  parser raises \<open>ValueError\<close>. Without that token the record is returned.
\<close>

theorem hebrew_several_tokens_raise:
  "hebrew_parts (''5784 Kislev 25 5785 Av 3 '' @ [CHR 0xB2]) =
     [''5784'', ''kislev'', ''25'', ''5785'', ''av'', ''3'', [CHR 0xB2]]
   \<and> filter is_year_token (hebrew_parts (''5784 Kislev 25 5785 Av 3 '' @ [CHR 0xB2]))
       = [''5784'', ''5785'']
   \<and> filter is_month_token (hebrew_parts (''5784 Kislev 25 5785 Av 3 '' @ [CHR 0xB2]))
       = [''kislev'', ''av'']
   \<and> filter is_day_token (hebrew_parts (''5784 Kislev 25 5785 Av 3 '' @ [CHR 0xB2]))
       = [''25'', ''3'']
   \<and> parseHebrewDate (''5784 Kislev 25 5785 Av 3 '' @ [CHR 0xB2]) = Inl ValueError
   \<and> parseHebrewDate ''5784 Kislev 25 5785 Av 3'' =
       Inr (Some \<lparr>year = 5785, month = ''Av'', day = 3\<rparr>)"
  by code_simp

text \<open>
  Claim C7. A token made of digit characters that are not decimal digits, such as the
  superscript two, passes \<open>isdigit()\<close> and is rejected by \<open>int()\<close>: on the three tokens
  below no year is identified, and the parser raises \<open>ValueError\<close> where the claim has
  it return no-match.
\<close>

theorem hebrew_superscript_digit_raises:
  "hebrew_parts (CHR 0xB2 # '' Kislev 25'') = [[CHR 0xB2], ''kislev'', ''25'']
   \<and> isdigit [CHR 0xB2]
   \<and> filter is_year_token (hebrew_parts (CHR 0xB2 # '' Kislev 25'')) = []
   \<and> parseHebrewDate (CHR 0xB2 # '' Kislev 25'') = Inl ValueError"
  by code_simp

text \<open>
  Claim C9. An input with fewer than three tokens, after the commas and periods are
  removed, the letters lowercased and the result split at whitespace, gives no-match.
\<close>

theorem hebrew_needs_three_tokens:
  assumes "length (split (lower (strip_punct s))) < 3"
  shows "parseHebrewDate s = Inr None"
  using assms by (simp add: parseHebrewDate_def hebrew_parts_def)

theorem hebrew_needs_three_tokens_witness:
  "split (lower (strip_punct ''Kislev 25'')) = [''kislev'', ''25'']
   \<and> parseHebrewDate ''Kislev 25'' = Inr None"
proof -
  have t: "split (lower (strip_punct ''Kislev 25'')) = [''kislev'', ''25'']" by code_simp
  then have "length (split (lower (strip_punct ''Kislev 25''))) < 3" by simp
  from hebrew_needs_three_tokens[OF this] t show ?thesis by simp
qed

section \<open>Properties of the conversion gateway\<close>

lemma py_in_exception: "py_in key data = Inl e \<Longrightarrow> is_Exception e"
  by (auto simp: py_in_def is_Exception_def split: json.splits)

lemma has_all_exception: "has_all k1 k2 k3 data = Inl e \<Longrightarrow> is_Exception e"
  by (auto simp: has_all_def bind_Inl_iff split: if_splits dest: py_in_exception)

lemma py_getitem_exception: "py_getitem data key = Inl e \<Longrightarrow> is_Exception e"
  by (auto simp: py_getitem_def is_Exception_def split: json.splits option.splits)

lemma format_02d_exception: "format_02d x = Inl e \<Longrightarrow> is_Exception e"
  by (auto simp: format_02d_def is_Exception_def Let_def split: json.splits)

lemma h2g_body_exception:
  assumes "\<forall>e. fetch service loads (h2g_params hebrew_date) = Inl e \<longrightarrow> is_Exception e"
    and "h2g_body other service loads hebrew_date = Inl e"
  shows "is_Exception e"
  using assms
  by (auto simp: h2g_body_def bind_Inl_iff split: if_splits
      dest: has_all_exception py_getitem_exception format_02d_exception)

lemma g2h_body_exception:
  assumes "\<forall>e. fetch service loads (g2h_params gregorian_date) = Inl e \<longrightarrow> is_Exception e"
    and "g2h_body other service loads gregorian_date = Inl e"
  shows "is_Exception e"
  using assms
  by (auto simp: g2h_body_def bind_Inl_iff split: if_splits
      dest: has_all_exception py_getitem_exception)

lemma try_except_returns:
  "(\<forall>e. body = Inl e \<longrightarrow> is_Exception e) \<Longrightarrow> \<exists>r. try_except body = Inr r"
  by (cases body) (auto simp: try_except_def)

lemma try_except_caught: "is_Exception e \<Longrightarrow> try_except (Inl e) = Inr None"
  by (simp add: try_except_def)

lemma has_all_missing:
  assumes "\<not> (present k1 data \<and> present k2 data \<and> present k3 data)"
  shows "has_all k1 k2 k3 data = Inr False
         \<or> (\<exists>e. has_all k1 k2 k3 data = Inl e)
         \<or> (\<exists>e. py_getitem data k = Inl e)"
proof (cases data)
  case (JDict kvs)
  with assms show ?thesis by (auto simp: has_all_def py_in_def present_def)
qed (auto simp: has_all_def py_in_def py_getitem_def)

lemma h2g_missing:
  assumes "fetch service loads (h2g_params hebrew_date) = Inr data"
    and "\<not> (present ''gy'' data \<and> present ''gm'' data \<and> present ''gd'' data)"
  shows "convertHebrewToGregorian other service loads hebrew_date = Inr None"
proof -
  from has_all_missing[OF assms(2), of "''gy''"]
  consider "has_all ''gy'' ''gm'' ''gd'' data = Inr False"
    | e where "has_all ''gy'' ''gm'' ''gd'' data = Inl e"
    | e where "py_getitem data ''gy'' = Inl e" by blast
  then show ?thesis
  proof cases
    case 1
    then show ?thesis
      by (simp add: convertHebrewToGregorian_def h2g_body_def assms(1) try_except_def)
  next
    case 2
    then show ?thesis using has_all_exception[OF 2]
      by (simp add: convertHebrewToGregorian_def h2g_body_def assms(1) try_except_def)
  next
    case 3
    then have "h2g_body other service loads hebrew_date = Inr None
               \<or> (\<exists>e'. is_Exception e' \<and> h2g_body other service loads hebrew_date = Inl e')"
      using py_getitem_exception[OF 3]
      by (cases "has_all ''gy'' ''gm'' ''gd'' data")
         (auto simp: h2g_body_def assms(1) dest: has_all_exception)
    then show ?thesis by (auto simp: convertHebrewToGregorian_def try_except_def)
  qed
qed

lemma g2h_missing:
  assumes "fetch service loads (g2h_params gregorian_date) = Inr data"
    and "\<not> (present ''hy'' data \<and> present ''hm'' data \<and> present ''hd'' data)"
  shows "convertGregorianToHebrew other service loads gregorian_date = Inr None"
proof -
  from has_all_missing[OF assms(2), of "''hy''"]
  consider "has_all ''hy'' ''hm'' ''hd'' data = Inr False"
    | e where "has_all ''hy'' ''hm'' ''hd'' data = Inl e"
    | e where "py_getitem data ''hy'' = Inl e" by blast
  then show ?thesis
  proof cases
    case 1
    then show ?thesis
      by (simp add: convertGregorianToHebrew_def g2h_body_def assms(1) try_except_def)
  next
    case 2
    then show ?thesis using has_all_exception[OF 2]
      by (simp add: convertGregorianToHebrew_def g2h_body_def assms(1) try_except_def)
  next
    case 3
    then have "g2h_body other service loads gregorian_date = Inr None
               \<or> (\<exists>e'. is_Exception e' \<and> g2h_body other service loads gregorian_date = Inl e')"
      using py_getitem_exception[OF 3]
      by (cases "has_all ''hy'' ''hm'' ''hd'' data")
         (auto simp: g2h_body_def assms(1) dest: has_all_exception)
    then show ?thesis by (auto simp: convertGregorianToHebrew_def try_except_def)
  qed
qed

text \<open>
  Claim C8. Provided the failures of the service and of the decoding are exceptions in
  the sense of \<open>except Exception\<close> (a network error, a timeout, an HTTP error status, a
  body that is not JSON), each converter returns and never raises; it returns \<open>None\<close>
  when the request or the decoding fails, and when the decoded answer is not an object
  holding all three expected fields.
\<close>

theorem gateway_never_raises:
  assumes "\<forall>e. fetch service loads (h2g_params hebrew_date) = Inl e \<longrightarrow> is_Exception e"
    and "\<forall>e. fetch service loads (g2h_params gregorian_date) = Inl e \<longrightarrow> is_Exception e"
  shows "(\<exists>r. convertHebrewToGregorian other service loads hebrew_date = Inr r)
       \<and> (\<exists>r. convertGregorianToHebrew other service loads gregorian_date = Inr r)
       \<and> ((\<exists>e. fetch service loads (h2g_params hebrew_date) = Inl e) \<longrightarrow>
            convertHebrewToGregorian other service loads hebrew_date = Inr None)
       \<and> ((\<exists>e. fetch service loads (g2h_params gregorian_date) = Inl e) \<longrightarrow>
            convertGregorianToHebrew other service loads gregorian_date = Inr None)
       \<and> (\<forall>data. fetch service loads (h2g_params hebrew_date) = Inr data
              \<and> \<not> (present ''gy'' data \<and> present ''gm'' data \<and> present ''gd'' data) \<longrightarrow>
            convertHebrewToGregorian other service loads hebrew_date = Inr None)
       \<and> (\<forall>data. fetch service loads (g2h_params gregorian_date) = Inr data
              \<and> \<not> (present ''hy'' data \<and> present ''hm'' data \<and> present ''hd'' data) \<longrightarrow>
            convertGregorianToHebrew other service loads gregorian_date = Inr None)"
proof -
  have 1: "\<exists>r. convertHebrewToGregorian other service loads hebrew_date = Inr r"
    unfolding convertHebrewToGregorian_def
    using h2g_body_exception[OF assms(1)] by (intro try_except_returns) blast
  have 2: "\<exists>r. convertGregorianToHebrew other service loads gregorian_date = Inr r"
    unfolding convertGregorianToHebrew_def
    using g2h_body_exception[OF assms(2)] by (intro try_except_returns) blast
  have 3: "convertHebrewToGregorian other service loads hebrew_date = Inr None"
    if "fetch service loads (h2g_params hebrew_date) = Inl e" for e
    using that assms(1)
    by (simp add: convertHebrewToGregorian_def h2g_body_def try_except_caught)
  have 4: "convertGregorianToHebrew other service loads gregorian_date = Inr None"
    if "fetch service loads (g2h_params gregorian_date) = Inl e" for e
    using that assms(2)
    by (simp add: convertGregorianToHebrew_def g2h_body_def try_except_caught)
  show ?thesis using 1 2 3 4 h2g_missing g2h_missing by blast
qed

theorem gateway_never_raises_witness:
  "convertHebrewToGregorian (\<lambda>x. []) (\<lambda>ps. Inl TimeoutError) (\<lambda>body. Inr JNull)
       \<lparr>year = 5784, month = ''Kislev'', day = 25\<rparr> = Inr None
   \<and> convertGregorianToHebrew (\<lambda>x. []) (\<lambda>ps. Inl (HTTPError 500)) (\<lambda>body. Inr JNull)
       \<lparr>year = 2023, month = 12, day = 8\<rparr> = Inr None
   \<and> convertHebrewToGregorian (\<lambda>x. []) (\<lambda>ps. Inr ''<html>'') (\<lambda>body. Inl JSONDecodeError)
       \<lparr>year = 5784, month = ''Kislev'', day = 25\<rparr> = Inr None
   \<and> convertGregorianToHebrew (\<lambda>x. []) (\<lambda>ps. Inr ''{}'')
       (\<lambda>body. Inr (JDict [(''hy'', JInt 5784), (''hm'', JStr ''Kislev'')]))
       \<lparr>year = 2023, month = 12, day = 8\<rparr> = Inr None"
proof -
  let ?h = "\<lparr>year = 5784, month = ''Kislev'', day = 25\<rparr>"
  let ?g = "\<lparr>year = 2023, month = 12 :: int, day = 8\<rparr>"
  let ?partial = "JDict [(''hy'', JInt 5784), (''hm'', JStr ''Kislev'')]"
  have e: "is_Exception TimeoutError" "is_Exception (HTTPError 500)"
    "is_Exception JSONDecodeError" by (simp_all add: is_Exception_def)
  have m: "\<not> (present ''hy'' ?partial \<and> present ''hm'' ?partial \<and> present ''hd'' ?partial)"
    by (simp add: present_def)
  have a: "convertHebrewToGregorian (\<lambda>x. []) (\<lambda>ps. Inl TimeoutError) (\<lambda>body. Inr JNull) ?h
             = Inr None"
    using gateway_never_raises[of "\<lambda>ps. Inl TimeoutError" "\<lambda>body. Inr JNull" ?h ?g "\<lambda>x. []"] e
    by (simp add: fetch_def)
  have b: "convertGregorianToHebrew (\<lambda>x. []) (\<lambda>ps. Inl (HTTPError 500)) (\<lambda>body. Inr JNull) ?g
             = Inr None"
    using gateway_never_raises[of "\<lambda>ps. Inl (HTTPError 500)" "\<lambda>body. Inr JNull" ?h ?g "\<lambda>x. []"] e
    by (simp add: fetch_def)
  have c: "convertHebrewToGregorian (\<lambda>x. []) (\<lambda>ps. Inr ''<html>'') (\<lambda>body. Inl JSONDecodeError) ?h
             = Inr None"
    using gateway_never_raises[of "\<lambda>ps. Inr ''<html>''" "\<lambda>body. Inl JSONDecodeError" ?h ?g
        "\<lambda>x. []"] e
    by (simp add: fetch_def)
  have d: "convertGregorianToHebrew (\<lambda>x. []) (\<lambda>ps. Inr ''{}'') (\<lambda>body. Inr ?partial) ?g
             = Inr None"
    using gateway_never_raises[of "\<lambda>ps. Inr ''{}''" "\<lambda>body. Inr ?partial" ?h ?g "\<lambda>x. []"] m
    by (simp add: fetch_def)
  show ?thesis using a b c d by simp
qed

end
